theory Spec2Isabelle
  imports Main
begin

section \<open>Python strings\<close>

text \<open>
  A Python \<open>str\<close> is a sequence of Unicode code points. A code point is modelled as a
  natural number and a string as the list of its code points, so that non-ASCII text is
  one element per character, as in the source. \<open>lit\<close> turns an ASCII literal into
  such a string.
\<close>

type_synonym pychar = nat
type_synonym pystr = "pychar list"

definition lit :: "string \<Rightarrow> pystr" where
  "lit s = map of_char s"

definition comma :: pychar where
  "comma = 44"

definition nl :: pychar where
  "nl = 10"

definition cr :: pychar where
  "cr = 13"

definition dquote :: pychar where
  "dquote = 34"

definition backslash :: pychar where
  "backslash = 92"

text \<open>
  \<open>str.startswith(p)\<close>: the first \<open>len(p)\<close> characters are \<open>p\<close>.
\<close>

definition startswith :: "pystr \<Rightarrow> pystr \<Rightarrow> bool" where
  "startswith s p = (take (length p) s = p)"

text \<open>
  \<open>str.strip()\<close> with no argument removes the characters for which CPython's
  \<open>Py_UNICODE_ISSPACE\<close> holds from both ends: U+0009..U+000D, U+001C..U+0020, U+0085,
  U+00A0, U+1680, U+2000..U+200A, U+2028, U+2029, U+202F, U+205F and U+3000.
\<close>

definition is_space :: "pychar \<Rightarrow> bool" where
  "is_space c =
     ((9 \<le> c \<and> c \<le> 13) \<or> (28 \<le> c \<and> c \<le> 32) \<or> c = 133 \<or> c = 160 \<or> c = 5760
      \<or> (8192 \<le> c \<and> c \<le> 8202) \<or> c = 8232 \<or> c = 8233 \<or> c = 8239 \<or> c = 8287
      \<or> c = 12288)"

definition lstrip :: "pystr \<Rightarrow> pystr" where
  "lstrip s = dropWhile is_space s"

definition rstrip :: "pystr \<Rightarrow> pystr" where
  "rstrip s = rev (dropWhile is_space (rev s))"

definition strip :: "pystr \<Rightarrow> pystr" where
  "strip s = rstrip (lstrip s)"

section \<open>The regular expression of \<open>parse_ass_file\<close>\<close>

text \<open>
  \<open>re.compile(...).match(line)\<close> is a backtracking matcher anchored at the start of the
  line. The pattern of the source uses literal characters, the greedy repetitions
  \<open>[^,]*\<close> and \<open>.*\<close>, and capturing groups. The model is the matcher's
  instruction list: a literal, a greedy star over a character class, and a mark at each
  group boundary (the opening and the closing parenthesis each record the current
  position). \<open>[^,]\<close> matches every character but the comma, the newline included;
  \<open>.\<close> matches every character but the newline (no \<open>DOTALL\<close> flag).
\<close>

datatype cls = NotChar pychar | AnyButNewline

datatype op = Lit pychar | Star cls | Mark

fun in_cls :: "cls \<Rightarrow> pychar \<Rightarrow> bool" where
  "in_cls (NotChar c) x = (x \<noteq> c)"
| "in_cls AnyButNewline x = (x \<noteq> nl)"

text \<open>
  \<open>bt ops s marks\<close> runs the instructions on the rest \<open>s\<close> of the subject. A star
  takes a character first and gives it back when the rest of the pattern fails after it
  (greedy, with backtracking). A mark records the rest of the subject at its position.
  The result is the list of marks of the first successful run, or \<open>None\<close>.
\<close>

fun bt :: "op list \<Rightarrow> pystr \<Rightarrow> pystr list \<Rightarrow> pystr list option" where
  "bt [] s marks = Some marks"
| "bt (Lit c # ops) [] marks = None"
| "bt (Lit c # ops) (x # xs) marks = (if x = c then bt ops xs marks else None)"
| "bt (Mark # ops) s marks = bt ops s (marks @ [s])"
| "bt (Star k # ops) [] marks = bt ops [] marks"
| "bt (Star k # ops) (x # xs) marks =
     (if in_cls k x
      then (case bt (Star k # ops) xs marks of
              Some r \<Rightarrow> Some r
            | None \<Rightarrow> bt ops (x # xs) marks)
      else bt ops (x # xs) marks)"

text \<open>
  The marks come in pairs, one pair per group in the order of the opening parentheses
  (the pattern has no nested group): the text of a group is what lies between the two
  positions.
\<close>

fun groups_of :: "pystr list \<Rightarrow> pystr list" where
  "groups_of (a # b # ms) = take (length a - length b) a # groups_of ms"
| "groups_of ms = []"

definition re_match :: "op list \<Rightarrow> pystr \<Rightarrow> pystr list option" where
  "re_match pat s = map_option groups_of (bt pat s [])"

text \<open>
  \<^verbatim>\<open>Dialogue: [^,]*,([^,]*),([^,]*),([^,]*,[^,]*,[^,]*,[^,]*,[^,]*,[^,]*,)(.*)\<close>
\<close>

definition dialogue_pattern :: "op list" where
  "dialogue_pattern =
     map Lit (lit ''Dialogue: '') @
     [Star (NotChar comma), Lit comma,
      Mark, Star (NotChar comma), Mark, Lit comma,
      Mark, Star (NotChar comma), Mark, Lit comma,
      Mark, Star (NotChar comma), Lit comma, Star (NotChar comma), Lit comma,
            Star (NotChar comma), Lit comma, Star (NotChar comma), Lit comma,
            Star (NotChar comma), Lit comma, Star (NotChar comma), Lit comma, Mark,
      Mark, Star AnyButNewline, Mark]"

section \<open>Extraction\<close>

text \<open>
  A dialogue entry is the dict literal of the source: three keys in insertion order.
\<close>

type_synonym dialogue = "(pystr \<times> pystr) list"

definition mk_dialogue :: "pystr \<Rightarrow> pystr \<Rightarrow> pystr \<Rightarrow> dialogue" where
  "mk_dialogue start_time end_time text =
     [(lit ''start_time'', start_time), (lit ''end_time'', end_time), (lit ''dialog'', strip text)]"

text \<open>\<open>parse_time\<close> returns its argument (the source defines it and never calls it).\<close>

definition parse_time :: "pystr \<Rightarrow> pystr" where
  "parse_time time_str = time_str"

text \<open>
  The exceptions. \<open>ValueError\<close>, \<open>OSError\<close> and \<open>UnicodeDecodeError\<close> carry the text
  \<open>str\<close> gives for them; \<open>UnicodeEncodeError\<close> carries the string that could not be
  encoded and the range of the offending characters in it.
\<close>

datatype exn =
  ValueError pystr | OSError pystr | UnicodeDecodeError pystr | UnicodeEncodeError pystr nat nat

text \<open>
  The body of the loop for one line: \<open>dialogues\<close> is the list built so far. Unpacking
  \<open>match.groups()\<close> into four names raises \<open>ValueError\<close> when there are not four
  groups.
\<close>

definition process_line :: "dialogue list \<Rightarrow> pystr \<Rightarrow> exn + dialogue list" where
  "process_line dialogues line =
     (if startswith line (lit ''Dialogue:'') then
        (case re_match dialogue_pattern line of
           Some groups \<Rightarrow>
             (case groups of
                [start_time, end_time, _, text] \<Rightarrow>
                  Inr (dialogues @ [mk_dialogue start_time end_time text])
              | _ \<Rightarrow> Inl (ValueError (lit ''not enough values to unpack'')))
         | None \<Rightarrow> Inr dialogues)
      else Inr dialogues)"

fun parse_lines :: "dialogue list \<Rightarrow> pystr list \<Rightarrow> exn + dialogue list" where
  "parse_lines dialogues [] = Inr dialogues"
| "parse_lines dialogues (line # rest) =
     (case process_line dialogues line of
        Inl e \<Rightarrow> Inl e
      | Inr dialogues' \<Rightarrow> parse_lines dialogues' rest)"

text \<open>
  Iterating over a file opened in text mode with the default \<open>newline=None\<close>:
  \<open>\r\n\<close> and a lone \<open>\r\<close> are translated to \<open>\n\<close>, and each line is
  delivered with its terminating \<open>\n\<close>; a last line without terminator is delivered
  when it is not empty.
\<close>

fun universal_newlines :: "pystr \<Rightarrow> pystr" where
  "universal_newlines [] = []"
| "universal_newlines [c] = (if c = cr then [nl] else [c])"
| "universal_newlines (c # d # cs) =
     (if c = cr \<and> d = nl then nl # universal_newlines cs
      else if c = cr then nl # universal_newlines (d # cs)
      else c # universal_newlines (d # cs))"

fun split_lines :: "pystr \<Rightarrow> pystr \<Rightarrow> pystr list" where
  "split_lines cur [] = (if cur = [] then [] else [cur])"
| "split_lines cur (c # cs) =
     (if c = nl then (cur @ [nl]) # split_lines [] cs else split_lines (cur @ [c]) cs)"

definition file_lines :: "pystr \<Rightarrow> pystr list" where
  "file_lines content = split_lines [] (universal_newlines content)"

section \<open>Files and the file system\<close>

text \<open>
  The file system maps a path to a directory or to a file. Reading a file as UTF-8 text
  either gives its decoded text or raises (no permission, bytes that are not UTF-8): a
  file holds that outcome. The exceptions of the operating system come from the world,
  with the text the runtime gives them: \<open>stat_error\<close> is the error of \<open>os.stat\<close> that
  \<open>Path.exists()\<close> does not swallow (a file name too long, no permission on a parent
  directory); \<open>open_error\<close> is the \<open>OSError\<close> that \<open>open\<close> raises on a path that is
  missing or a directory; \<open>denied\<close> gives the paths that cannot be opened for writing
  (missing parent directory, no permission). \<open>out\<close> is what \<open>print\<close> has written, one
  entry per call.
\<close>

datatype node = Directory | File "exn + pystr"

record world =
  fs :: "pystr \<Rightarrow> node option"
  stat_error :: "pystr \<Rightarrow> exn option"
  open_error :: "pystr \<Rightarrow> exn"
  denied :: "pystr \<Rightarrow> exn option"
  out :: "pystr list"

definition print :: "pystr \<Rightarrow> world \<Rightarrow> world" where
  "print msg w = w\<lparr>out := out w @ [msg]\<rparr>"

text \<open>
  \<open>Path.exists()\<close>: \<open>os.stat\<close> on the path; a missing path gives \<open>False\<close>, any other
  error of \<open>stat\<close> is raised again.
\<close>

definition path_exists :: "world \<Rightarrow> pystr \<Rightarrow> exn + bool" where
  "path_exists w p =
     (case stat_error w p of
        Some e \<Rightarrow> Inl e
      | None \<Rightarrow> Inr (fs w p \<noteq> None))"

definition read_text :: "world \<Rightarrow> pystr \<Rightarrow> exn + pystr" where
  "read_text w p =
     (case fs w p of
        None \<Rightarrow> Inl (open_error w p)
      | Some Directory \<Rightarrow> Inl (open_error w p)
      | Some (File r) \<Rightarrow> r)"

definition parse_ass_file :: "world \<Rightarrow> pystr \<Rightarrow> exn + dialogue list" where
  "parse_ass_file w file_path =
     (case read_text w file_path of
        Inl e \<Rightarrow> Inl e
      | Inr content \<Rightarrow> parse_lines [] (file_lines content))"

section \<open>Serialisation\<close>

text \<open>
  \<open>json.dump(dialogues, file, ensure_ascii=False, indent=2)\<close> writes the chunks of
  \<open>iterencode\<close> to the file one by one. With an indent the chunks come from the
  generators \<open>_iterencode_list\<close> and \<open>_iterencode_dict\<close> of the standard library, with
  the separators \<open>','\<close> and \<open>': '\<close>, and strings are encoded by
  \<open>encode_basestring\<close> (\<open>ensure_ascii=False\<close>). A dict is encoded in insertion order.
\<close>

datatype json = JStr pystr | JList "json list" | JDict "(pystr \<times> json) list"

definition hexdigit :: "nat \<Rightarrow> pychar" where
  "hexdigit d = (if d < 10 then 48 + d else 87 + d)"

text \<open>
  \<open>ESCAPE_DCT\<close>: the backslash, the double quote, \<open>\b \f \n \r \t\<close>, and
  \<open>\u00xx\<close> for the other characters below U+0020. Every other character is copied.
\<close>

definition esc_char :: "pychar \<Rightarrow> pystr" where
  "esc_char c =
     (if c = backslash then [backslash, backslash]
      else if c = dquote then [backslash, dquote]
      else if c = 8 then backslash # lit ''b''
      else if c = 12 then backslash # lit ''f''
      else if c = 10 then backslash # lit ''n''
      else if c = 13 then backslash # lit ''r''
      else if c = 9 then backslash # lit ''t''
      else if c < 32 then backslash # lit ''u00'' @ [hexdigit (c div 16), hexdigit (c mod 16)]
      else [c])"

definition py_encode_basestring :: "pystr \<Rightarrow> pystr" where
  "py_encode_basestring s = dquote # concat (map esc_char s) @ [dquote]"

fun join :: "pystr \<Rightarrow> pystr list \<Rightarrow> pystr" where
  "join sep [] = []"
| "join sep [x] = x"
| "join sep (x # y # ys) = x @ sep @ join sep (y # ys)"

definition newline_indent :: "nat \<Rightarrow> pystr" where
  "newline_indent level = nl # replicate (2 * level) 32"

text \<open>
  The chunks. In a list, the bracket or the separator is joined to a string item and is a
  chunk of its own before any other item; in a dict, the separator, the key, the colon and
  a string value are each a chunk. \<open>level\<close> is the indent level of the items.
\<close>

fun iterencode :: "nat \<Rightarrow> json \<Rightarrow> pystr list"
  and iterencode_list :: "nat \<Rightarrow> pystr \<Rightarrow> json list \<Rightarrow> pystr list"
  and iterencode_dict :: "nat \<Rightarrow> bool \<Rightarrow> (pystr \<times> json) list \<Rightarrow> pystr list"
where
  "iterencode level (JStr s) = [py_encode_basestring s]"
| "iterencode level (JList lst) =
     (if lst = [] then [lit ''[]'']
      else iterencode_list (level + 1) (lit ''['' @ newline_indent (level + 1)) lst
           @ [newline_indent level, lit '']''])"
| "iterencode level (JDict dct) =
     (if dct = [] then [lit ''{}'']
      else [lit ''{'', newline_indent (level + 1)]
           @ iterencode_dict (level + 1) True dct
           @ [newline_indent level, lit ''}''])"
| "iterencode_list level buf [] = []"
| "iterencode_list level buf (v # vs) =
     (case v of
        JStr s \<Rightarrow> [buf @ py_encode_basestring s]
      | _ \<Rightarrow> buf # iterencode level v)
     @ iterencode_list level (lit '','' @ newline_indent level) vs"
| "iterencode_dict level first [] = []"
| "iterencode_dict level first (kv # kvs) =
     (if first then [] else [lit '','' @ newline_indent level])
     @ [py_encode_basestring (fst kv), lit '': '']
     @ iterencode level (snd kv)
     @ iterencode_dict level False kvs"

definition to_json :: "dialogue list \<Rightarrow> json" where
  "to_json dialogues = JList (map (\<lambda>d. JDict (map (\<lambda>kv. (fst kv, JStr (snd kv))) d)) dialogues)"


text \<open>
  The file is opened with \<open>encoding='utf-8'\<close>: \<open>write\<close> encodes each chunk, and the
  codec refuses the surrogate code points U+D800..U+DFFF with \<open>UnicodeEncodeError\<close>
  on the first run of them in the chunk.
\<close>

definition is_surrogate :: "pychar \<Rightarrow> bool" where
  "is_surrogate c = (55296 \<le> c \<and> c \<le> 57343)"

definition utf8_encode_error :: "pystr \<Rightarrow> exn option" where
  "utf8_encode_error s =
     (if filter is_surrogate s = [] then None
      else (let start = length (takeWhile (\<lambda>c. \<not> is_surrogate c) s);
                run = length (takeWhile is_surrogate (drop start s))
            in Some (UnicodeEncodeError s start (start + run))))"

text \<open>
  \<open>for chunk in iterable: fp.write(chunk)\<close>: \<open>written\<close> is the text written so far. The
  chunk that cannot be encoded raises, and what was written before stays in the file when
  the \<open>with\<close> block closes it. A line feed is written as it is (POSIX).
\<close>

fun write_chunks :: "pystr \<Rightarrow> pystr list \<Rightarrow> pystr \<times> exn option" where
  "write_chunks written [] = (written, None)"
| "write_chunks written (chunk # chunks) =
     (case utf8_encode_error chunk of
        Some e \<Rightarrow> (written, Some e)
      | None \<Rightarrow> write_chunks (written @ chunk) chunks)"

definition open_write :: "world \<Rightarrow> pystr \<Rightarrow> exn option" where
  "open_write w p =
     (case fs w p of
        Some Directory \<Rightarrow> Some (open_error w p)
      | _ \<Rightarrow> denied w p)"

text \<open>
  \<open>write_json\<close> returns the world it leaves and the exception it raises, if any. When
  \<open>open\<close> fails nothing changes; once the file is open it holds what was written, whole
  or cut before the chunk that raised.
\<close>

definition write_json :: "dialogue list \<Rightarrow> pystr \<Rightarrow> world \<Rightarrow> world \<times> exn option" where
  "write_json dialogues output_path w =
     (case open_write w output_path of
        Some e \<Rightarrow> (w, Some e)
      | None \<Rightarrow>
          (let r = write_chunks [] (iterencode 0 (to_json dialogues))
           in (w\<lparr>fs := (fs w)(output_path \<mapsto> File (Inr (fst r)))\<rparr>, snd r)))"

section \<open>The command line\<close>

text \<open>
  \<open>Path(s)\<close> (POSIX flavour) keeps a root, \<open>/\<close> or \<open>//\<close> for exactly two leading
  slashes, and the components of \<open>s\<close> between slashes that are neither empty nor
  \<open>.\<close>. \<open>str\<close> joins them again, and is \<open>.\<close> for the empty path.
\<close>

definition slash :: pychar where
  "slash = 47"

definition dot :: pychar where
  "dot = 46"

fun split_sep :: "pychar \<Rightarrow> pystr \<Rightarrow> pystr \<Rightarrow> pystr list" where
  "split_sep sep cur [] = [cur]"
| "split_sep sep cur (c # cs) =
     (if c = sep then cur # split_sep sep [] cs else split_sep sep (cur @ [c]) cs)"

record pure_path =
  path_root :: pystr
  path_parts :: "pystr list"

definition Path :: "pystr \<Rightarrow> pure_path" where
  "Path s =
     \<lparr>path_root =
        (if startswith s [slash, slash] \<and> \<not> startswith s [slash, slash, slash] then [slash, slash]
         else if startswith s [slash] then [slash]
         else []),
      path_parts = filter (\<lambda>x. x \<noteq> [] \<and> x \<noteq> [dot]) (split_sep slash [] s)\<rparr>"

definition str_path :: "pure_path \<Rightarrow> pystr" where
  "str_path p =
     (let t = path_root p @ join [slash] (path_parts p) in if t = [] then [dot] else t)"

text \<open>
  \<open>name\<close> is the final component (empty when there is none); \<open>suffix\<close> is the part of
  the name from its last dot, when that dot is neither the first nor the last character
  of the name.
\<close>

definition path_name :: "pure_path \<Rightarrow> pystr" where
  "path_name p = (if path_parts p = [] then [] else last (path_parts p))"

text \<open>\<open>str.rfind(c)\<close>: the highest index of \<open>c\<close>, or \<open>-1\<close>.\<close>

definition rfind :: "pystr \<Rightarrow> pychar \<Rightarrow> int" where
  "rfind s c = (if c \<in> set s then int (length s) - 1 - int (length (takeWhile (\<lambda>x. x \<noteq> c) (rev s))) else - 1)"

definition suffix :: "pure_path \<Rightarrow> pystr" where
  "suffix p =
     (let name = path_name p; i = rfind name dot
      in if 0 < i \<and> i < int (length name) - 1 then drop (nat i) name else [])"

text \<open>
  \<open>with_suffix\<close> raises \<open>ValueError\<close> on a path with an empty name; the new suffix of
  the source, \<open>.json\<close>, is a valid one. The old suffix is cut from the name and the new
  one put in its place.
\<close>

definition with_suffix :: "pure_path \<Rightarrow> pystr \<Rightarrow> exn + pure_path" where
  "with_suffix p sfx =
     (if path_name p = [] then
        Inl (ValueError (lit ''PosixPath('' @ [39] @ str_path p @ [39] @ lit '') has an empty name''))
      else Inr (p\<lparr>path_parts :=
                  butlast (path_parts p)
                  @ [take (length (path_name p) - length (suffix p)) (path_name p) @ sfx]\<rparr>))"

text \<open>
  \<open>str.lower()\<close> on the ASCII letters. The cased letters beyond ASCII are left alone
  here; none of them has a letter of \<open>.ass\<close> as its lower case, so the comparison of
  the source is decided by this part of the mapping.
\<close>

definition lower :: "pystr \<Rightarrow> pystr" where
  "lower s = map (\<lambda>c. if 65 \<le> c \<and> c \<le> 90 then c + 32 else c) s"

function str_nat :: "nat \<Rightarrow> pystr" where
  "str_nat n = (if n < 10 then [48 + n] else str_nat (n div 10) @ [48 + n mod 10])"
  by pat_completeness auto
termination
  by (relation "measure (\<lambda>n. n)") auto

text \<open>\<open>'%0kx' % n\<close> for a number of at most \<open>k\<close> hexadecimal digits.\<close>

fun hex_fixed :: "nat \<Rightarrow> nat \<Rightarrow> pystr" where
  "hex_fixed 0 n = []"
| "hex_fixed (Suc k) n = hex_fixed k (n div 16) @ [hexdigit (n mod 16)]"

text \<open>
  \<open>str(e)\<close>. For \<open>UnicodeEncodeError\<close> of the \<open>utf-8\<close> codec the text names the one
  character and its position, or the range of positions of several.
\<close>

definition bad_char :: "pychar \<Rightarrow> pystr" where
  "bad_char c =
     (if c \<le> 255 then backslash # lit ''x'' @ hex_fixed 2 c
      else if c \<le> 65535 then backslash # lit ''u'' @ hex_fixed 4 c
      else backslash # lit ''U'' @ hex_fixed 8 c)"

fun str_exn :: "exn \<Rightarrow> pystr" where
  "str_exn (ValueError m) = m"
| "str_exn (OSError m) = m"
| "str_exn (UnicodeDecodeError m) = m"
| "str_exn (UnicodeEncodeError obj start stop) =
     (if stop = start + 1 \<and> start < length obj then
        [39] @ lit ''utf-8'' @ [39] @ lit '' codec can'' @ [39] @ lit ''t encode character '' @ [39]
        @ bad_char (obj ! start) @ [39] @ lit '' in position '' @ str_nat start
        @ lit '': surrogates not allowed''
      else
        [39] @ lit ''utf-8'' @ [39] @ lit '' codec can'' @ [39] @ lit ''t encode characters in position ''
        @ str_nat start @ lit ''-'' @ str_nat (stop - 1)
        @ lit '': surrogates not allowed'')"

text \<open>
  \<open>Path(args.output) if args.output else input_path.with_suffix('.json')\<close>: an absent
  and an empty \<open>--output\<close> are both false.
\<close>

definition output_path_for :: "pure_path \<Rightarrow> pystr option \<Rightarrow> exn + pure_path" where
  "output_path_for input_path output =
     (case output of
        None \<Rightarrow> with_suffix input_path (lit ''.json'')
      | Some p \<Rightarrow> if p \<noteq> [] then Inr (Path p) else with_suffix input_path (lit ''.json''))"

text \<open>
  \<open>main\<close> with the parsed arguments \<open>args.input\<close> and \<open>args.output\<close>. It returns the
  world it leaves and the exception that leaves \<open>main\<close> uncaught, if any. The existence
  test and the computation of the output path stand before the \<open>try\<close>: an exception
  of \<open>exists\<close> or of \<open>with_suffix\<close> propagates. The exceptions of \<open>parse_ass_file\<close>
  and \<open>write_json\<close> are caught by \<open>except Exception\<close> and printed.
\<close>

definition main :: "pystr \<Rightarrow> pystr option \<Rightarrow> world \<Rightarrow> world \<times> exn option" where
  "main input output w =
     (let input_path = Path input in
      case path_exists w (str_path input_path) of
        Inl e \<Rightarrow> (w, Some e)
      | Inr found \<Rightarrow>
          if \<not> found then
            (print (lit ''Error: Input file '' @ [39] @ str_path input_path @ [39]
                    @ lit '' not found.'') w, None)
          else if lower (suffix input_path) \<noteq> lit ''.ass'' then
            (print (lit ''Error: Input file must be an ASS file'') w, None)
          else
            (case output_path_for input_path output of
               Inl e \<Rightarrow> (w, Some e)
             | Inr output_path \<Rightarrow>
                 (case parse_ass_file w (str_path input_path) of
                    Inl e \<Rightarrow> (print (lit ''An error occurred: '' @ str_exn e) w, None)
                  | Inr dialogues \<Rightarrow>
                      (case write_json dialogues (str_path output_path) w of
                         (w', Some e) \<Rightarrow> (print (lit ''An error occurred: '' @ str_exn e) w', None)
                       | (w', None) \<Rightarrow>
                           (print (lit ''Extracted '' @ str_nat (length dialogues)
                                   @ lit '' dialogue lines'')
                              (print (lit ''Successfully converted '' @ [39] @ str_path input_path
                                      @ [39] @ lit '' to '' @ [39] @ str_path output_path @ [39]) w'),
                            None)))))"

section \<open>The field schema of the specification\<close>

text \<open>
  \<open>split_fields n s\<close> is \<open>s.split(',', n)\<close>: \<open>s\<close> cut at its first \<open>n\<close> commas, the
  last element being the rest with its commas. With \<open>n = 9\<close> on the text after the
  marker it gives the ten fields of the specification.
\<close>

fun split_fields :: "nat \<Rightarrow> pystr \<Rightarrow> pystr list" where
  "split_fields 0 s = [s]"
| "split_fields (Suc n) s =
     (case dropWhile (\<lambda>c. c \<noteq> comma) s of
        [] \<Rightarrow> [s]
      | _ # rest \<Rightarrow> takeWhile (\<lambda>c. c \<noteq> comma) s # split_fields n rest)"

definition fields :: "pystr \<Rightarrow> pystr list" where
  "fields line = split_fields 9 (drop 10 line)"

text \<open>A line as the file iteration delivers it: no newline but a final one.\<close>

definition file_line :: "pystr \<Rightarrow> bool" where
  "file_line line = (nl \<notin> set (butlast line))"

text \<open>
  The record the specification describes for a line: field 1, field 2 and the text
  field, trimmed. \<open>matched\<close>: the pattern of the source matches the line.
\<close>

definition record_of :: "pystr \<Rightarrow> dialogue" where
  "record_of line = mk_dialogue (fields line ! 1) (fields line ! 2) (fields line ! 9)"

definition matched :: "pystr \<Rightarrow> bool" where
  "matched line = (re_match dialogue_pattern line \<noteq> None)"

text \<open>
  The output format of the specification: an array of objects, each with the keys
  \<open>start_time\<close>, \<open>end_time\<close> and \<open>dialog\<close> in that order and string values, the
  objects in the order of the records. \<open>records\<close> builds the dicts from their values.
\<close>

definition records :: "(pystr \<times> pystr \<times> pystr) list \<Rightarrow> dialogue list" where
  "records rs =
     map (\<lambda>r. [(lit ''start_time'', fst r), (lit ''end_time'', fst (snd r)),
                (lit ''dialog'', snd (snd r))]) rs"





text \<open>
  Reading the output back as JSON (RFC 8259), for the documents of the output format: an
  array of objects with string values. Whitespace is space, tab, line feed and carriage
  return. A string stands between double quotes, has no raw character below U+0020, and
  its escapes are \<open>\" \\ \/ \b \f \n \r \t\<close> and \<open>\uXXXX\<close>.
\<close>

definition json_ws :: "pychar \<Rightarrow> bool" where
  "json_ws c = (c = 32 \<or> c = 9 \<or> c = 10 \<or> c = 13)"

definition skip_ws :: "pystr \<Rightarrow> pystr" where
  "skip_ws s = dropWhile json_ws s"

definition hexval :: "pychar \<Rightarrow> nat option" where
  "hexval c =
     (if 48 \<le> c \<and> c \<le> 57 then Some (c - 48)
      else if 97 \<le> c \<and> c \<le> 102 then Some (c - 87)
      else if 65 \<le> c \<and> c \<le> 70 then Some (c - 55)
      else None)"

definition hex4 :: "pychar \<Rightarrow> pychar \<Rightarrow> pychar \<Rightarrow> pychar \<Rightarrow> nat option" where
  "hex4 a b c d =
     (case (hexval a, hexval b, hexval c, hexval d) of
        (Some x, Some y, Some z, Some u) \<Rightarrow> Some (((x * 16 + y) * 16 + z) * 16 + u)
      | _ \<Rightarrow> None)"

text \<open>
  \<open>read_string acc s\<close> reads the characters of a string after its opening quote, up to
  the closing quote: the value and the rest of the text.
\<close>

fun read_string :: "pystr \<Rightarrow> pystr \<Rightarrow> (pystr \<times> pystr) option" where
  "read_string acc [] = None"
| "read_string acc [c] = (if c = dquote then Some (acc, []) else None)"
| "read_string acc (c # e # es) =
     (if c = dquote then Some (acc, e # es)
      else if c = backslash then
        (if e = dquote \<or> e = backslash \<or> e = slash then read_string (acc @ [e]) es
         else if e = 98 then read_string (acc @ [8]) es
         else if e = 102 then read_string (acc @ [12]) es
         else if e = 110 then read_string (acc @ [10]) es
         else if e = 114 then read_string (acc @ [13]) es
         else if e = 116 then read_string (acc @ [9]) es
         else if e = 117 then
           (case es of
              h1 # h2 # h3 # h4 # rest \<Rightarrow>
                (case hex4 h1 h2 h3 h4 of
                   Some v \<Rightarrow> read_string (acc @ [v]) rest
                 | None \<Rightarrow> None)
            | _ \<Rightarrow> None)
         else None)
      else if c < 32 then None
      else read_string (acc @ [c]) (e # es))"

definition parse_string :: "pystr \<Rightarrow> (pystr \<times> pystr) option" where
  "parse_string s =
     (case s of
        [] \<Rightarrow> None
      | c # cs \<Rightarrow> if c = dquote then read_string [] cs else None)"

text \<open>A member of an object: a string, a colon, a string.\<close>

definition parse_member :: "pystr \<Rightarrow> ((pystr \<times> pystr) \<times> pystr) option" where
  "parse_member s =
     (case parse_string s of
        None \<Rightarrow> None
      | Some (k, r1) \<Rightarrow>
          (case skip_ws r1 of
             [] \<Rightarrow> None
           | c # r2 \<Rightarrow>
               if c = 58 then
                 (case parse_string (skip_ws r2) of
                    None \<Rightarrow> None
                  | Some (v, r3) \<Rightarrow> Some ((k, v), r3))
               else None))"

text \<open>
  The members of an object from its first one to the closing brace, and the objects of an
  array from its first one to the closing bracket. The first argument bounds the number
  of members (objects) read; the length of the text is always enough.
\<close>

fun parse_members :: "nat \<Rightarrow> pystr \<Rightarrow> ((pystr \<times> pystr) list \<times> pystr) option" where
  "parse_members 0 s = None"
| "parse_members (Suc n) s =
     (case parse_member s of
        None \<Rightarrow> None
      | Some (kv, r) \<Rightarrow>
          (case skip_ws r of
             [] \<Rightarrow> None
           | c # cs \<Rightarrow>
               if c = 125 then Some ([kv], cs)
               else if c = comma then
                 (case parse_members n (skip_ws cs) of
                    None \<Rightarrow> None
                  | Some (kvs, r') \<Rightarrow> Some (kv # kvs, r'))
               else None))"

definition parse_object :: "pystr \<Rightarrow> ((pystr \<times> pystr) list \<times> pystr) option" where
  "parse_object s =
     (case s of
        [] \<Rightarrow> None
      | c # cs \<Rightarrow>
          if c = 123 then
            (case skip_ws cs of
               [] \<Rightarrow> None
             | d # ds \<Rightarrow> if d = 125 then Some ([], ds) else parse_members (length s) (d # ds))
          else None)"

fun parse_objects :: "nat \<Rightarrow> pystr \<Rightarrow> ((pystr \<times> pystr) list list \<times> pystr) option" where
  "parse_objects 0 s = None"
| "parse_objects (Suc n) s =
     (case parse_object s of
        None \<Rightarrow> None
      | Some (obj, r) \<Rightarrow>
          (case skip_ws r of
             [] \<Rightarrow> None
           | c # cs \<Rightarrow>
               if c = 93 then Some ([obj], cs)
               else if c = comma then
                 (case parse_objects n (skip_ws cs) of
                    None \<Rightarrow> None
                  | Some (objs, r') \<Rightarrow> Some (obj # objs, r'))
               else None))"

text \<open>The whole document: an array, with nothing but whitespace around it.\<close>

definition json_loads :: "pystr \<Rightarrow> (pystr \<times> pystr) list list option" where
  "json_loads s =
     (case skip_ws s of
        [] \<Rightarrow> None
      | c # cs \<Rightarrow>
          if c = 91 then
            (case skip_ws cs of
               [] \<Rightarrow> None
             | d # ds \<Rightarrow>
                 if d = 93 then (if skip_ws ds = [] then Some [] else None)
                 else
                   (case parse_objects (length s) (d # ds) of
                      None \<Rightarrow> None
                    | Some (objs, r) \<Rightarrow> if skip_ws r = [] then Some objs else None))
          else None)"

text \<open>
  Two worlds for the examples. In \<open>example_world\<close> there are an empty text file
  \<open>b.txt\<close> and a directory \<open>d.ass\<close>, every other path is writable, and \<open>open\<close>
  raises the errors of Linux. In \<open>name_max_world\<close> there is no file, and \<open>stat\<close> fails
  on a path with a component of more than 255 characters, as Linux does for ASCII names.
\<close>

definition example_world :: world where
  "example_world =
     \<lparr>fs = (\<lambda>p. if p = lit ''b.txt'' then Some (File (Inr []))
                else if p = lit ''d.ass'' then Some Directory else None),
      stat_error = (\<lambda>p. None),
      open_error = (\<lambda>p. if p = lit ''d.ass''
                         then OSError (lit ''[Errno 21] Is a directory: '' @ [39] @ p @ [39])
                         else OSError (lit ''[Errno 2] No such file or directory: '' @ [39] @ p @ [39])),
      denied = (\<lambda>p. None),
      out = []\<rparr>"

definition name_max_world :: world where
  "name_max_world =
     \<lparr>fs = (\<lambda>p. None),
      stat_error = (\<lambda>p. if list_ex (\<lambda>x. 255 < length x) (split_sep slash [] p)
                         then Some (OSError (lit ''[Errno 36] File name too long: '' @ [39] @ p @ [39]))
                         else None),
      open_error = (\<lambda>p. OSError (lit ''[Errno 2] No such file or directory: '' @ [39] @ p @ [39])),
      denied = (\<lambda>p. None),
      out = []\<rparr>"

section \<open>The matcher on the pattern of the source\<close>

text \<open>
  What the backtracking matcher does on the pieces of the pattern: a literal prefix is a
  \<open>startswith\<close> test; \<open>[^,]*,\<close> moves to just after the next comma and fails when
  there is none; \<open>(.*)\<close> takes the rest up to the first newline.
\<close>

lemma bt_lits:
  "bt (map Lit p @ ops) s marks = (if startswith s p then bt ops (drop (length p) s) marks else None)"
proof (induction p arbitrary: s)
  case Nil
  show ?case by (simp add: startswith_def)
next
  case (Cons c p)
  show ?case
  proof (cases s)
    case Nil
    then show ?thesis by (simp add: startswith_def)
  next
    case (Cons x xs)
    with Cons.IH [of xs] show ?thesis by (auto simp: startswith_def)
  qed
qed

lemma bt_field:
  "bt (Star (NotChar comma) # Lit comma # ops) s marks =
     (case dropWhile (\<lambda>c. c \<noteq> comma) s of [] \<Rightarrow> None | c # rest \<Rightarrow> bt ops rest marks)"
  by (induction s) (auto split: list.splits option.splits)

lemma bt_field_mark:
  "bt (Star (NotChar comma) # Mark # Lit comma # ops) s marks =
     (case dropWhile (\<lambda>c. c \<noteq> comma) s of [] \<Rightarrow> None | c # rest \<Rightarrow> bt ops rest (marks @ [c # rest]))"
  by (induction s) (auto split: list.splits option.splits)

lemma bt_dotstar:
  "bt [Star AnyButNewline, Mark] s marks = Some (marks @ [dropWhile (\<lambda>c. c \<noteq> nl) s])"
  by (induction s) auto

lemma take_length_dropWhile:
  "take (length s - length (dropWhile P s)) s = takeWhile P s"
  by (induction s) (auto simp: Suc_diff_le length_dropWhile_le)


lemma startswith_append:
  assumes "startswith s (p @ q)"
  shows "startswith s p"
proof -
  have "take (length p) (take (length (p @ q)) s) = take (length p) (p @ q)"
    using assms by (simp only: startswith_def)
  then show ?thesis
    by (simp add: startswith_def)
qed

lemma startswith_marker:
  "startswith line (lit ''Dialogue: '') \<Longrightarrow> startswith line (lit ''Dialogue:'')"
  using startswith_append [of line "lit ''Dialogue:''" "lit '' ''"]
  by (simp add: lit_def)

lemma length_prefix [simp]: "length (lit ''Dialogue: '') = 10"
  by (simp add: lit_def)


lemma dropWhile_comma_Cons:
  "dropWhile (\<lambda>c. c \<noteq> comma) s = c # rest \<Longrightarrow> s = takeWhile (\<lambda>c. c \<noteq> comma) s @ comma # rest"
  by (metis (mono_tags, lifting) hd_dropWhile list.sel(1) list.distinct(1) takeWhile_dropWhile_id)

lemma split_fields_nonempty: "split_fields k s \<noteq> []"
  by (cases k) (auto split: list.splits)

lemma bt_fields:
  "bt (concat (replicate k [Star (NotChar comma), Lit comma]) @ ops) s marks =
     (if length (split_fields k s) = Suc k then bt ops (last (split_fields k s)) marks else None)"
proof (induction k arbitrary: s)
  case 0
  show ?case by simp
next
  case (Suc k)
  show ?case
  proof (cases "dropWhile (\<lambda>c. c \<noteq> comma) s")
    case Nil
    have "split_fields (Suc k) s = [s]"
      by (simp only: split_fields.simps Nil list.case)
    moreover have "bt (concat (replicate (Suc k) [Star (NotChar comma), Lit comma]) @ ops) s marks = None"
      by (simp only: replicate_Suc concat.simps append.simps bt_field Nil list.case)
    ultimately show ?thesis by simp
  next
    case (Cons c rest)
    have "split_fields (Suc k) s = takeWhile (\<lambda>c. c \<noteq> comma) s # split_fields k rest"
      by (simp only: split_fields.simps Cons list.case)
    moreover have "bt (concat (replicate (Suc k) [Star (NotChar comma), Lit comma]) @ ops) s marks
        = bt (concat (replicate k [Star (NotChar comma), Lit comma]) @ ops) rest marks"
      by (simp only: replicate_Suc concat.simps append.simps bt_field Cons list.case)
    ultimately show ?thesis
      using split_fields_nonempty [of k rest] by (simp add: Suc.IH)
  qed
qed

lemma split_fields_last:
  "length (split_fields k s) = Suc k \<Longrightarrow> last (split_fields k s) = split_fields k s ! k"
  by (metis diff_Suc_1 last_conv_nth length_0_conv nat.distinct(1))


lemma split_fields_Nil:
  "dropWhile (\<lambda>c. c \<noteq> comma) s = [] \<Longrightarrow> split_fields (Suc k) s = [s]"
  by (simp only: split_fields.simps list.case)

lemma split_fields_Cons:
  "dropWhile (\<lambda>c. c \<noteq> comma) s = c # rest \<Longrightarrow>
   split_fields (Suc k) s = takeWhile (\<lambda>c. c \<noteq> comma) s # split_fields k rest"
  by (simp only: split_fields.simps list.case)

lemma group_text:
  "dropWhile P s = r \<Longrightarrow> take (length s - length r) s = takeWhile P s"
  using take_length_dropWhile [of s P] by simp

lemma tail_match:
  "map_option groups_of
     (bt ([Star (NotChar comma), Lit comma,
           Mark, Star (NotChar comma), Mark, Lit comma,
           Mark, Star (NotChar comma), Mark, Lit comma, Mark]
          @ concat (replicate 6 [Star (NotChar comma), Lit comma])
          @ [Mark, Mark, Star AnyButNewline, Mark]) s0 []) =
   (if length (split_fields 9 s0) = 10
    then Some [split_fields 9 s0 ! 1, split_fields 9 s0 ! 2,
               take (length (last (split_fields 3 s0)) - length (last (split_fields 9 s0)))
                 (last (split_fields 3 s0)),
               takeWhile (\<lambda>c. c \<noteq> nl) (split_fields 9 s0 ! 9)]
    else None)"
  (is "map_option groups_of (bt (?pre @ ?six @ ?fin) s0 []) = ?rhs")
proof (cases "dropWhile (\<lambda>c. c \<noteq> comma) s0")
  case Nil
  have "split_fields 9 s0 = [s0]"
    using split_fields_Nil [OF Nil, of 8] by simp
  moreover have "bt (?pre @ ?six @ ?fin) s0 [] = None"
    by (simp only: append.simps bt_field Nil list.case)
  ultimately show ?thesis by simp
next
  case c0: (Cons c0 s1)
  have f9: "split_fields 9 s0 = takeWhile (\<lambda>c. c \<noteq> comma) s0 # split_fields 8 s1"
    using split_fields_Cons [OF c0, of 8] by simp
  have f3: "split_fields 3 s0 = takeWhile (\<lambda>c. c \<noteq> comma) s0 # split_fields 2 s1"
    using split_fields_Cons [OF c0, of 2] by (simp add: eval_nat_numeral)
  have b0: "bt (?pre @ ?six @ ?fin) s0 [] = bt (tl (tl ?pre) @ ?six @ ?fin) s1 []"
    by (simp only: append.simps bt_field c0 list.case list.sel)
  show ?thesis
  proof (cases "dropWhile (\<lambda>c. c \<noteq> comma) s1")
    case Nil
    have "split_fields 8 s1 = [s1]"
      using split_fields_Nil [OF Nil, of 7] by simp
    moreover have "bt (tl (tl ?pre) @ ?six @ ?fin) s1 [] = None"
      by (simp only: append.simps bt.simps bt_field_mark Nil list.case list.sel)
    ultimately show ?thesis using f9 b0 by simp
  next
    case c1: (Cons c1 s2)
    have f8: "split_fields 8 s1 = takeWhile (\<lambda>c. c \<noteq> comma) s1 # split_fields 7 s2"
      using split_fields_Cons [OF c1, of 7] by simp
    have f2: "split_fields 2 s1 = takeWhile (\<lambda>c. c \<noteq> comma) s1 # split_fields 1 s2"
      using split_fields_Cons [OF c1, of 1] by (simp add: eval_nat_numeral)
    have b1: "bt (tl (tl ?pre) @ ?six @ ?fin) s1 []
        = bt (tl (tl (tl (tl (tl (tl ?pre))))) @ ?six @ ?fin) s2 [s1, c1 # s2]"
      by (simp only: append.simps bt.simps bt_field_mark c1 list.case list.sel)
    show ?thesis
    proof (cases "dropWhile (\<lambda>c. c \<noteq> comma) s2")
      case Nil
      have "split_fields 7 s2 = [s2]"
        using split_fields_Nil [OF Nil, of 6] by simp
      moreover have "bt (tl (tl (tl (tl (tl (tl ?pre))))) @ ?six @ ?fin) s2 [s1, c1 # s2] = None"
        by (simp only: append.simps bt.simps bt_field_mark Nil list.case list.sel)
      ultimately show ?thesis using f9 f8 b0 b1 by simp
    next
      case c2: (Cons c2 s3)
      have f7: "split_fields 7 s2 = takeWhile (\<lambda>c. c \<noteq> comma) s2 # split_fields 6 s3"
        using split_fields_Cons [OF c2, of 6] by simp
      have f1: "split_fields 1 s2 = [takeWhile (\<lambda>c. c \<noteq> comma) s2, s3]"
        using split_fields_Cons [OF c2, of 0] by simp
      have b2: "bt (tl (tl (tl (tl (tl (tl ?pre))))) @ ?six @ ?fin) s2 [s1, c1 # s2]
          = bt (?six @ ?fin) s3 [s1, c1 # s2, s2, c2 # s3, s3]"
        by (simp only: append.simps bt.simps bt_field_mark c2 list.case list.sel)
      have b3: "bt (?six @ ?fin) s3 [s1, c1 # s2, s2, c2 # s3, s3]
          = (if length (split_fields 6 s3) = 7
             then Some [s1, c1 # s2, s2, c2 # s3, s3, last (split_fields 6 s3),
                        last (split_fields 6 s3),
                        dropWhile (\<lambda>c. c \<noteq> nl) (last (split_fields 6 s3))]
             else None)"
        by (simp add: bt_fields bt_dotstar del: replicate.simps replicate_Suc)
      have g1: "take (length s1 - length (c1 # s2)) s1 = takeWhile (\<lambda>c. c \<noteq> comma) s1"
        by (rule group_text [OF c1])
      have g2: "take (length s2 - length (c2 # s3)) s2 = takeWhile (\<lambda>c. c \<noteq> comma) s2"
        by (rule group_text [OF c2])
      have g4: "take (length t - length (dropWhile (\<lambda>c. c \<noteq> nl) t)) t = takeWhile (\<lambda>c. c \<noteq> nl) t" for t
        by (rule take_length_dropWhile)
      show ?thesis
      proof (cases "length (split_fields 6 s3) = 7")
        case False
        then show ?thesis using f9 f8 f7 b0 b1 b2 b3 by simp
      next
        case True
        have l6: "last (split_fields 6 s3) = split_fields 6 s3 ! 6"
          using True split_fields_last [of 6 s3] by simp
        have "map_option groups_of (bt (?pre @ ?six @ ?fin) s0 []) =
            Some [takeWhile (\<lambda>c. c \<noteq> comma) s1, takeWhile (\<lambda>c. c \<noteq> comma) s2,
                  take (length s3 - length (last (split_fields 6 s3))) s3,
                  takeWhile (\<lambda>c. c \<noteq> nl) (last (split_fields 6 s3))]"
          unfolding b0 b1 b2 b3 using True g1 g2 g4 by simp
        moreover have "length (split_fields 9 s0) = 10" using True f9 f8 f7 by simp
        moreover have "split_fields 9 s0 ! 1 = takeWhile (\<lambda>c. c \<noteq> comma) s1"
          using f9 f8 by simp
        moreover have "split_fields 9 s0 ! 2 = takeWhile (\<lambda>c. c \<noteq> comma) s2"
          using f9 f8 f7 by simp
        moreover have "split_fields 9 s0 ! 9 = last (split_fields 6 s3)"
          using f9 f8 f7 l6 by (simp add: eval_nat_numeral)
        moreover have "last (split_fields 9 s0) = last (split_fields 6 s3)"
          using f9 f8 f7 split_fields_nonempty [of 6 s3] by simp
        moreover have "last (split_fields 3 s0) = s3"
          using f3 f2 f1 by simp
        ultimately show ?thesis by simp
      qed
    qed
  qed
qed


text \<open>
  The pattern matches a line exactly when the line starts with \<open>Dialogue: \<close> and has
  ten fields; its groups are then field 1, field 2, the six metadata fields with their
  commas, and the text field up to the first newline.
\<close>

lemma dialogue_pattern_eq:
  "dialogue_pattern =
     map Lit (lit ''Dialogue: '') @
     ([Star (NotChar comma), Lit comma,
       Mark, Star (NotChar comma), Mark, Lit comma,
       Mark, Star (NotChar comma), Mark, Lit comma, Mark]
      @ concat (replicate 6 [Star (NotChar comma), Lit comma])
      @ [Mark, Mark, Star AnyButNewline, Mark])"
  by (simp add: dialogue_pattern_def eval_nat_numeral)

lemma re_match_dialogue:
  "re_match dialogue_pattern line =
     (if startswith line (lit ''Dialogue: '') \<and> length (fields line) = 10
      then Some [fields line ! 1, fields line ! 2,
                 take (length (last (split_fields 3 (drop 10 line))) - length (last (fields line)))
                   (last (split_fields 3 (drop 10 line))),
                 takeWhile (\<lambda>c. c \<noteq> nl) (fields line ! 9)]
      else None)"
proof (cases "startswith line (lit ''Dialogue: '')")
  case False
  then have "bt dialogue_pattern line [] = None"
    by (simp only: dialogue_pattern_eq bt_lits if_False)
  with False show ?thesis by (simp add: re_match_def)
next
  case True
  then have "re_match dialogue_pattern line =
      map_option groups_of
        (bt ([Star (NotChar comma), Lit comma,
              Mark, Star (NotChar comma), Mark, Lit comma,
              Mark, Star (NotChar comma), Mark, Lit comma, Mark]
             @ concat (replicate 6 [Star (NotChar comma), Lit comma])
             @ [Mark, Mark, Star AnyButNewline, Mark]) (drop 10 line) [])"
    by (simp only: re_match_def dialogue_pattern_eq bt_lits if_True length_prefix)
  with True show ?thesis
    by (simp only: tail_match fields_def simp_thms)
qed

lemma matched_iff:
  "matched line \<longleftrightarrow> startswith line (lit ''Dialogue: '') \<and> length (fields line) = 10"
  by (simp add: matched_def re_match_dialogue)

lemma process_line_eq:
  "process_line ds line =
     Inr (if matched line
          then ds @ [mk_dialogue (fields line ! 1) (fields line ! 2)
                       (takeWhile (\<lambda>c. c \<noteq> nl) (fields line ! 9))]
          else ds)"
proof (cases "matched line")
  case False
  then show ?thesis
    by (simp add: process_line_def matched_def)
next
  case True
  then have "startswith line (lit ''Dialogue:'')"
    by (simp add: matched_iff startswith_marker)
  with True show ?thesis
    by (simp add: process_line_def re_match_dialogue matched_iff)
qed

lemma parse_lines_eq:
  "parse_lines ds lines =
     Inr (ds @ map (\<lambda>line. mk_dialogue (fields line ! 1) (fields line ! 2)
                       (takeWhile (\<lambda>c. c \<noteq> nl) (fields line ! 9)))
               (filter matched lines))"
  by (induction lines arbitrary: ds) (simp_all add: process_line_eq)

text \<open>
  A line the file iteration delivers has no newline but a final one, which \<open>strip\<close>
  removes: on such a line the text group, trimmed, is the whole text field, trimmed.
\<close>

lemma strip_snoc_space:
  assumes "is_space c"
  shows "strip (s @ [c]) = strip s"
proof (cases "\<forall>x\<in>set s. is_space x")
  case True
  then have "dropWhile is_space s = []" by simp
  moreover from True assms have "dropWhile is_space (s @ [c]) = []" by simp
  ultimately show ?thesis by (simp only: strip_def lstrip_def rstrip_def)
next
  case False
  then have "dropWhile is_space (s @ [c]) = dropWhile is_space s @ [c]"
    by (simp add: dropWhile_append1 dropWhile_append)
  with assms show ?thesis by (simp add: strip_def lstrip_def rstrip_def)
qed

lemma file_line_append: "file_line (p @ t) \<Longrightarrow> file_line t"
  by (cases "t = []") (auto simp: file_line_def butlast_append)

lemma strip_file_line:
  assumes "file_line t"
  shows "strip (takeWhile (\<lambda>c. c \<noteq> nl) t) = strip t"
proof (cases t rule: rev_cases)
  case Nil
  then show ?thesis by simp
next
  case (snoc b x)
  with assms have nb: "\<forall>c\<in>set b. c \<noteq> nl" by (auto simp: file_line_def)
  show ?thesis
  proof (cases "x = nl")
    case True
    have "is_space nl" by (simp add: is_space_def nl_def)
    then have "strip (b @ [nl]) = strip b" by (rule strip_snoc_space)
    moreover have "takeWhile (\<lambda>c. c \<noteq> nl) (b @ [nl]) = b"
      using nb by (simp add: takeWhile_append2)
    ultimately show ?thesis using snoc True by simp
  next
    case False
    then have "takeWhile (\<lambda>c. c \<noteq> nl) (b @ [x]) = b @ [x]"
      using nb by (simp add: takeWhile_append2)
    with snoc show ?thesis by simp
  qed
qed

lemma split_fields_decomp:
  "length (split_fields k s) = Suc k \<Longrightarrow>
   s = concat (map (\<lambda>f. f @ [comma]) (butlast (split_fields k s))) @ last (split_fields k s)
   \<and> (\<forall>f\<in>set (butlast (split_fields k s)). comma \<notin> set f)"
proof (induction k arbitrary: s)
  case 0
  show ?case by simp
next
  case (Suc k)
  show ?case
  proof (cases "dropWhile (\<lambda>c. c \<noteq> comma) s")
    case Nil
    from split_fields_Nil [OF Nil, of k] Suc.prems show ?thesis by simp
  next
    case (Cons c rest)
    note sf = split_fields_Cons [OF Cons, of k]
    from sf Suc.prems have len: "length (split_fields k rest) = Suc k" by simp
    note ih = Suc.IH [OF len]
    have ne: "split_fields k rest \<noteq> []" by (rule split_fields_nonempty)
    have s: "s = takeWhile (\<lambda>c. c \<noteq> comma) s @ comma # rest"
      by (rule dropWhile_comma_Cons [OF Cons])
    have nc: "comma \<notin> set (takeWhile (\<lambda>c. c \<noteq> comma) s)"
      by (auto dest: set_takeWhileD)
    have "s = concat (map (\<lambda>f. f @ [comma]) (butlast (split_fields (Suc k) s)))
              @ last (split_fields (Suc k) s)"
      unfolding sf using ne ih s by simp
    moreover have "\<forall>f\<in>set (butlast (split_fields (Suc k) s)). comma \<notin> set f"
      unfolding sf using ne ih nc by simp
    ultimately show ?thesis by blast
  qed
qed

lemma split_fields_concat:
  "length flds = k \<Longrightarrow> (\<forall>f\<in>set flds. comma \<notin> set f) \<Longrightarrow>
   split_fields k (concat (map (\<lambda>f. f @ [comma]) flds) @ rest) = flds @ [rest]"
proof (induction flds arbitrary: k)
  case Nil
  then show ?case by simp
next
  case (Cons f flds)
  then obtain k' where k: "k = Suc k'" "length flds = k'" by (cases k) auto
  from Cons.prems have nc: "\<forall>x\<in>set f. x \<noteq> comma" by auto
  have d: "dropWhile (\<lambda>c. c \<noteq> comma) (f @ comma # concat (map (\<lambda>f. f @ [comma]) flds) @ rest)
      = comma # concat (map (\<lambda>f. f @ [comma]) flds) @ rest"
    using nc by (simp add: dropWhile_append3 dropWhile_append2)
  have t: "takeWhile (\<lambda>c. c \<noteq> comma) (f @ comma # concat (map (\<lambda>f. f @ [comma]) flds) @ rest) = f"
    using nc by (simp add: takeWhile_append2)
  from Cons.IH [OF k(2)] Cons.prems have "split_fields k' (concat (map (\<lambda>f. f @ [comma]) flds) @ rest) = flds @ [rest]"
    by simp
  with split_fields_Cons [OF d, of k'] t k show ?case by simp
qed

lemma split_fields_count:
  "length (split_fields k s) = Suc (min k (count_list s comma))"
proof (induction k arbitrary: s)
  case 0
  show ?case by simp
next
  case (Suc k)
  show ?case
  proof (cases "dropWhile (\<lambda>c. c \<noteq> comma) s")
    case Nil
    then have "comma \<notin> set s" by auto
    then have "count_list s comma = 0" by (simp add: count_list_0_iff)
    with split_fields_Nil [OF Nil, of k] show ?thesis by simp
  next
    case (Cons c rest)
    have s: "s = takeWhile (\<lambda>c. c \<noteq> comma) s @ comma # rest"
      by (rule dropWhile_comma_Cons [OF Cons])
    have "comma \<notin> set (takeWhile (\<lambda>c. c \<noteq> comma) s)"
      by (auto dest: set_takeWhileD)
    then have z: "count_list (takeWhile (\<lambda>c. c \<noteq> comma) s) comma = 0"
      by (simp add: count_list_0_iff)
    have "count_list s comma = Suc (count_list rest comma)"
      by (subst s) (simp add: z)
    with split_fields_Cons [OF Cons, of k] Suc.IH [of rest] show ?thesis by simp
  qed
qed

lemma split_lines_file_line:
  "nl \<notin> set cur \<Longrightarrow> l \<in> set (split_lines cur s) \<Longrightarrow> file_line l"
proof (induction s arbitrary: cur)
  case Nil
  then show ?case
    by (auto simp: file_line_def split: if_splits dest: in_set_butlastD)
next
  case (Cons c s)
  show ?case
  proof (cases "c = nl")
    case True
    with Cons.prems have "l = cur @ [nl] \<or> l \<in> set (split_lines [] s)" by simp
    then show ?thesis
    proof
      assume "l = cur @ [nl]"
      with Cons.prems(1) show ?thesis by (simp add: file_line_def)
    next
      assume "l \<in> set (split_lines [] s)"
      then show ?thesis using Cons.IH [of "[]"] by simp
    qed
  next
    case False
    with Cons.prems have "l \<in> set (split_lines (cur @ [c]) s)" by simp
    moreover from False Cons.prems(1) have "nl \<notin> set (cur @ [c])" by simp
    ultimately show ?thesis using Cons.IH by blast
  qed
qed

lemma file_lines_file_line: "l \<in> set (file_lines content) \<Longrightarrow> file_line l"
  unfolding file_lines_def by (rule split_lines_file_line [of "[]"]) simp_all

lemma fields_decomp:
  assumes "length (fields line) = 10"
  shows "drop 10 line = concat (map (\<lambda>f. f @ [comma]) (take 9 (fields line))) @ fields line ! 9"
    and "\<forall>f\<in>set (take 9 (fields line)). comma \<notin> set f"
proof -
  from assms have len: "length (split_fields 9 (drop 10 line)) = Suc 9"
    by (simp add: fields_def)
  have bl: "butlast (fields line) = take 9 (fields line)"
    using assms by (simp add: butlast_conv_take)
  have la: "last (fields line) = fields line ! 9"
    using split_fields_last [OF len] by (simp add: fields_def)
  from split_fields_decomp [OF len] bl la
  show "drop 10 line = concat (map (\<lambda>f. f @ [comma]) (take 9 (fields line))) @ fields line ! 9"
    and "\<forall>f\<in>set (take 9 (fields line)). comma \<notin> set f"
    by (simp_all add: fields_def)
qed

lemma fields_text_file_line:
  assumes "file_line line" and "length (fields line) = 10"
  shows "file_line (fields line ! 9)"
proof -
  have "line = (take 10 line @ concat (map (\<lambda>f. f @ [comma]) (take 9 (fields line)))) @ fields line ! 9"
    using fields_decomp(1) [OF assms(2)] append_take_drop_id [of 10 line] by simp
  with assms(1) show ?thesis
    using file_line_append by metis
qed

lemma process_file_line:
  assumes "file_line line"
  shows "process_line ds line = Inr (if matched line then ds @ [record_of line] else ds)"
proof (cases "matched line")
  case False
  then show ?thesis by (simp add: process_line_eq)
next
  case True
  then have "length (fields line) = 10" by (simp add: matched_iff)
  then have "file_line (fields line ! 9)" using assms by (intro fields_text_file_line)
  then have "strip (takeWhile (\<lambda>c. c \<noteq> nl) (fields line ! 9)) = strip (fields line ! 9)"
    by (rule strip_file_line)
  with True show ?thesis
    by (simp add: process_line_eq record_of_def mk_dialogue_def)
qed

lemma parse_file_lines:
  assumes "\<forall>l\<in>set lines. file_line l"
  shows "parse_lines ds lines = Inr (ds @ map record_of (filter matched lines))"
  using assms
  by (induction lines arbitrary: ds) (simp_all add: process_file_line)

lemma startswith_prefix: "startswith (p @ s) p"
  by (simp add: startswith_def)

lemma rev_dropWhile_takeWhile:
  "rev (dropWhile P (rev xs)) @ rev (takeWhile P (rev xs)) = xs"
proof -
  have "rev (takeWhile P (rev xs) @ dropWhile P (rev xs)) = rev (rev xs)"
    by (simp only: takeWhile_dropWhile_id)
  then show ?thesis by (simp only: rev_append rev_rev_ident)
qed

lemma strip_decomp:
  "\<exists>ws1 ws2. s = ws1 @ strip s @ ws2 \<and> (\<forall>c\<in>set ws1. is_space c) \<and> (\<forall>c\<in>set ws2. is_space c)"
proof -
  let ?t = "dropWhile is_space s"
  have t: "?t = strip s @ rev (takeWhile is_space (rev ?t))"
    using rev_dropWhile_takeWhile [of is_space ?t]
    by (simp only: strip_def lstrip_def rstrip_def)
  have "s = takeWhile is_space s @ ?t" by simp
  with t have "s = takeWhile is_space s @ strip s @ rev (takeWhile is_space (rev ?t))"
    by simp
  moreover have "\<forall>c\<in>set (takeWhile is_space s). is_space c"
    by (auto dest: set_takeWhileD)
  moreover have "\<forall>c\<in>set (rev (takeWhile is_space (rev ?t))). is_space c"
    by (auto dest: set_takeWhileD)
  ultimately show ?thesis by blast
qed

lemma strip_ends:
  assumes "strip s \<noteq> []"
  shows "\<not> is_space (hd (strip s)) \<and> \<not> is_space (last (strip s))"
proof -
  let ?t = "dropWhile is_space s"
  let ?u = "dropWhile is_space (rev ?t)"
  have s: "strip s = rev ?u" by (simp add: strip_def lstrip_def rstrip_def)
  with assms have u: "?u \<noteq> []" by simp
  then have "\<not> is_space (hd ?u)" by (rule hd_dropWhile)
  then have l: "\<not> is_space (last (strip s))" using s u by (simp add: last_rev)
  have t: "?t = strip s @ rev (takeWhile is_space (rev ?t))"
    using rev_dropWhile_takeWhile [of is_space ?t]
    by (simp only: strip_def lstrip_def rstrip_def)
  have "strip s @ rev (takeWhile is_space (rev ?t)) \<noteq> []"
    using assms by simp
  then have "?t \<noteq> []" by (simp only: t [symmetric] simp_thms)
  then have "\<not> is_space (hd ?t)" by (rule hd_dropWhile)
  moreover have "hd ?t = hd (strip s)"
    using assms by (subst t) simp
  ultimately show ?thesis using l by simp
qed

lemma count_list_strip:
  assumes "\<not> is_space c"
  shows "count_list (strip s) c = count_list s c"
proof -
  obtain ws1 ws2 where d: "s = ws1 @ strip s @ ws2"
    and w: "\<forall>x\<in>set ws1. is_space x" "\<forall>x\<in>set ws2. is_space x"
    using strip_decomp by blast
  from w assms have "c \<notin> set ws1" "c \<notin> set ws2" by auto
  then have z: "count_list ws1 c = 0" "count_list ws2 c = 0"
    by (simp_all add: count_list_0_iff)
  have "count_list s c = count_list (ws1 @ strip s @ ws2) c" using d by simp
  with z show ?thesis by simp
qed

lemma count_comma_fields:
  "\<forall>f\<in>set flds. comma \<notin> set f \<Longrightarrow>
   count_list (concat (map (\<lambda>f. f @ [comma]) flds)) comma = length flds"
  by (induction flds) (simp_all add: count_list_0_iff)

lemma not_space_comma: "\<not> is_space comma"
  by (simp add: is_space_def comma_def)

lemma prefix_no_comma: "count_list (lit ''Dialogue: '') comma = 0"
  by (simp add: lit_def comma_def)

section \<open>The serialiser and the command line\<close>











































lemma indents:
  "newline_indent 0 = [nl]" "newline_indent 1 = [nl, 32, 32]" "newline_indent 2 = [nl, 32, 32, 32, 32]"
  "newline_indent (Suc 0) = [nl, 32, 32]" "newline_indent (Suc (Suc 0)) = [nl, 32, 32, 32, 32]"
  by (simp_all add: newline_indent_def eval_nat_numeral)





lemma split_sep_plain: "sep \<notin> set s \<Longrightarrow> split_sep sep cur s = [cur @ s]"
  by (induction s arbitrary: cur) simp_all

lemma Path_plain:
  assumes "slash \<notin> set s" and "s \<noteq> []" and "s \<noteq> [dot]"
  shows "Path s = \<lparr>path_root = [], path_parts = [s]\<rparr>"
proof -
  from assms(1,2) obtain c cs where s: "s = c # cs" and c: "c \<noteq> slash"
    by (cases s) auto
  then have "\<not> startswith s [slash, slash]" "\<not> startswith s [slash]"
    by (simp_all add: startswith_def)
  with assms show ?thesis
    by (simp add: Path_def split_sep_plain)
qed

section \<open>The claims about the extractor\<close>

text \<open>
  C1. As stated, for a line that begins with \<open>Dialogue:\<close> and has at least nine commas
  after it, the claim fails: the pattern asks for a space after the colon, so
  \<open>Dialogue:0,...\<close> gives no record (\<open>marker_without_space_counterexample\<close>). As
  amended: every line of the file that begins with \<open>Dialogue: \<close> (the marker and one
  space) and has at least nine commas after that prefix appends exactly one record, with
  field 1 as \<open>start_time\<close>, field 2 as \<open>end_time\<close> and the rest of the line after
  the ninth comma, trimmed, as \<open>dialog\<close>.
\<close>

theorem dialogue_line_emits_record:
  assumes "startswith line (lit ''Dialogue: '')"
    and "9 \<le> count_list (drop 10 line) comma"
    and "file_line line"
  shows "process_line ds line =
           Inr (ds @ [[(lit ''start_time'', fields line ! 1), (lit ''end_time'', fields line ! 2),
                       (lit ''dialog'', strip (fields line ! 9))]])"
proof -
  have "length (fields line) = 10"
    using assms(2) by (simp add: fields_def split_fields_count)
  with assms(1) have "matched line" by (simp add: matched_iff)
  with assms(3) show ?thesis
    by (simp add: process_file_line record_of_def mk_dialogue_def)
qed

theorem dialogue_line_emits_record_witness:
  "startswith (lit ''Dialogue: 0,0:00:01.00,0:00:03.50,Default,,0,0,0,,Wait, what?'' @ [nl])
     (lit ''Dialogue: '')
   \<and> 9 \<le> count_list (drop 10 (lit ''Dialogue: 0,0:00:01.00,0:00:03.50,Default,,0,0,0,,Wait, what?'' @ [nl])) comma
   \<and> file_line (lit ''Dialogue: 0,0:00:01.00,0:00:03.50,Default,,0,0,0,,Wait, what?'' @ [nl])
   \<and> process_line [] (lit ''Dialogue: 0,0:00:01.00,0:00:03.50,Default,,0,0,0,,Wait, what?'' @ [nl]) =
       Inr [[(lit ''start_time'', lit ''0:00:01.00''), (lit ''end_time'', lit ''0:00:03.50''),
             (lit ''dialog'', lit ''Wait, what?'')]]"
  (is "startswith ?L ?P \<and> ?H2 \<and> ?H3 \<and> ?C")
proof -
  have h1: "startswith ?L ?P" by code_simp
  have h2: ?H2 by code_simp
  have h3: "file_line ?L" by code_simp
  have f1: "fields ?L ! 1 = lit ''0:00:01.00''" by code_simp
  have f2: "fields ?L ! 2 = lit ''0:00:03.50''" by code_simp
  have f9: "strip (fields ?L ! 9) = lit ''Wait, what?''" by code_simp
  from dialogue_line_emits_record [OF h1 h2 h3, of "[]"] f1 f2 f9 have ?C by simp
  with h1 h2 h3 show ?thesis by blast
qed

theorem marker_without_space_counterexample:
  "startswith (lit ''Dialogue:0,0:00:01.00,0:00:02.00,Default,,0,0,0,,Hi there'') (lit ''Dialogue:'')
   \<and> 9 \<le> count_list (drop 9 (lit ''Dialogue:0,0:00:01.00,0:00:02.00,Default,,0,0,0,,Hi there'')) comma
   \<and> process_line [] (lit ''Dialogue:0,0:00:01.00,0:00:02.00,Default,,0,0,0,,Hi there'') = Inr []"
  by code_simp

text \<open>
  C2. The line \<open>Dialogue: 0,0:00:01.00,0:00:02.00,Default,,0,0,0,,Hi there\<close> gives exactly
  the record with \<open>start_time\<close> \<open>0:00:01.00\<close>, \<open>end_time\<close> \<open>0:00:02.00\<close> and
  \<open>dialog\<close> \<open>Hi there\<close>, as a line on its own and as the only line of a file.
\<close>

theorem spec_example_line:
  "process_line [] (lit ''Dialogue: 0,0:00:01.00,0:00:02.00,Default,,0,0,0,,Hi there'') =
     Inr [[(lit ''start_time'', lit ''0:00:01.00''), (lit ''end_time'', lit ''0:00:02.00''),
           (lit ''dialog'', lit ''Hi there'')]]
   \<and> parse_lines [] (file_lines (lit ''Dialogue: 0,0:00:01.00,0:00:02.00,Default,,0,0,0,,Hi there'' @ [nl])) =
     Inr [[(lit ''start_time'', lit ''0:00:01.00''), (lit ''end_time'', lit ''0:00:02.00''),
           (lit ''dialog'', lit ''Hi there'')]]"
  by code_simp

text \<open>
  C3. For every line of the file that the pattern matches, only the first nine commas cut
  the line: the line is the prefix, nine comma-free fields each followed by its comma, and
  the text; the \<open>dialog\<close> is that text trimmed, it has every comma of the text, and the
  line has exactly nine commas more than the \<open>dialog\<close>.
\<close>

theorem later_commas_stay_in_dialog:
  assumes "file_line line" and "matched line"
  shows "\<exists>dg. process_line ds line =
                 Inr (ds @ [[(lit ''start_time'', fields line ! 1), (lit ''end_time'', fields line ! 2),
                             (lit ''dialog'', dg)]])
             \<and> dg = strip (fields line ! 9)
             \<and> line = lit ''Dialogue: '' @ concat (map (\<lambda>f. f @ [comma]) (take 9 (fields line)))
                        @ fields line ! 9
             \<and> (\<forall>f\<in>set (take 9 (fields line)). comma \<notin> set f)
             \<and> count_list dg comma = count_list (fields line ! 9) comma
             \<and> count_list line comma = 9 + count_list dg comma"
proof -
  from assms(2) have len: "length (fields line) = 10"
    and pre: "take 10 line = lit ''Dialogue: ''"
    by (simp_all add: matched_iff startswith_def)
  note dec = fields_decomp [OF len]
  have line: "line = lit ''Dialogue: '' @ concat (map (\<lambda>f. f @ [comma]) (take 9 (fields line)))
                        @ fields line ! 9"
    using dec(1) pre append_take_drop_id [of 10 line] by simp
  have c9: "count_list (strip (fields line ! 9)) comma = count_list (fields line ! 9) comma"
    using not_space_comma by (rule count_list_strip)
  have "count_list line comma =
      count_list (lit ''Dialogue: '') comma
      + count_list (concat (map (\<lambda>f. f @ [comma]) (take 9 (fields line)))) comma
      + count_list (fields line ! 9) comma"
    by (subst line) simp
  also have "\<dots> = 9 + count_list (fields line ! 9) comma"
    using count_comma_fields [OF dec(2)] len by (simp add: prefix_no_comma)
  finally have cl: "count_list line comma = 9 + count_list (strip (fields line ! 9)) comma"
    using c9 by simp
  have "process_line ds line =
      Inr (ds @ [[(lit ''start_time'', fields line ! 1), (lit ''end_time'', fields line ! 2),
                  (lit ''dialog'', strip (fields line ! 9))]])"
    using assms by (simp add: process_file_line record_of_def mk_dialogue_def)
  with line dec(2) c9 cl show ?thesis by blast
qed

theorem later_commas_stay_in_dialog_witness:
  "file_line (lit ''Dialogue: 0,1,2,S,,0,0,0,,Wait, what?'' @ [nl])
   \<and> matched (lit ''Dialogue: 0,1,2,S,,0,0,0,,Wait, what?'' @ [nl])
   \<and> process_line [] (lit ''Dialogue: 0,1,2,S,,0,0,0,,Wait, what?'' @ [nl]) =
       Inr [[(lit ''start_time'', lit ''1''), (lit ''end_time'', lit ''2''),
             (lit ''dialog'', lit ''Wait, what?'')]]
   \<and> count_list (lit ''Dialogue: 0,1,2,S,,0,0,0,,Wait, what?'' @ [nl]) comma = 10"
  (is "file_line ?L \<and> _ \<and> ?C \<and> ?N")
proof -
  have h1: "file_line ?L" by code_simp
  have h2: "matched ?L" by code_simp
  have f1: "fields ?L ! 1 = lit ''1''" by code_simp
  have f2: "fields ?L ! 2 = lit ''2''" by code_simp
  have f9: "strip (fields ?L ! 9) = lit ''Wait, what?''" by code_simp
  have n: ?N by code_simp
  from later_commas_stay_in_dialog [OF h1 h2, of "[]"] f1 f2 f9 have ?C by auto
  with h1 h2 n show ?thesis by blast
qed

text \<open>
  C4. A line that starts with \<open>Dialogue:\<close> and that the pattern does not match appends no
  record and raises nothing, and the lines around it are processed as if it were not
  there: the result is that of the other lines, and it holds the record of every matched
  line of the file among them.
\<close>

theorem malformed_line_skipped:
  assumes "startswith line (lit ''Dialogue:'')" and "\<not> matched line"
  shows "process_line ds line = Inr ds
       \<and> (\<exists>res. parse_lines [] (pre @ line # post) = Inr res
                \<and> parse_lines [] (pre @ post) = Inr res
                \<and> (\<forall>l\<in>set (pre @ post). matched l \<and> file_line l \<longrightarrow> record_of l \<in> set res))"
proof -
  let ?res = "map (\<lambda>line. mk_dialogue (fields line ! 1) (fields line ! 2)
                       (takeWhile (\<lambda>c. c \<noteq> nl) (fields line ! 9)))
               (filter matched (pre @ post))"
  have 1: "process_line ds line = Inr ds" using assms(2) by (simp add: process_line_eq)
  have 2: "parse_lines [] (pre @ line # post) = Inr ?res"
    using assms(2) by (simp add: parse_lines_eq)
  have 3: "parse_lines [] (pre @ post) = Inr ?res"
    by (simp add: parse_lines_eq)
  have 4: "record_of l \<in> set ?res" if "l \<in> set (pre @ post)" "matched l" "file_line l" for l
  proof -
    from that(2) have "length (fields l) = 10" by (simp add: matched_iff)
    then have "file_line (fields l ! 9)" using that(3) by (intro fields_text_file_line)
    then have "strip (takeWhile (\<lambda>c. c \<noteq> nl) (fields l ! 9)) = strip (fields l ! 9)"
      by (rule strip_file_line)
    then have "record_of l = mk_dialogue (fields l ! 1) (fields l ! 2)
                       (takeWhile (\<lambda>c. c \<noteq> nl) (fields l ! 9))"
      by (simp add: record_of_def mk_dialogue_def)
    with that(1,2) show ?thesis by (auto simp: image_iff)
  qed
  from 1 2 3 4 show ?thesis by blast
qed

theorem malformed_line_skipped_witness:
  "startswith (lit ''Dialogue: 0,1,2,S'' @ [nl]) (lit ''Dialogue:'')
   \<and> \<not> matched (lit ''Dialogue: 0,1,2,S'' @ [nl])
   \<and> process_line [] (lit ''Dialogue: 0,1,2,S'' @ [nl]) = Inr []
   \<and> parse_lines [] ([lit ''Dialogue: 0,1,2,S,,0,0,0,,a'' @ [nl]]
        @ (lit ''Dialogue: 0,1,2,S'' @ [nl]) # [lit ''Dialogue: 0,3,4,S,,0,0,0,,b'' @ [nl]]) =
       Inr [[(lit ''start_time'', lit ''1''), (lit ''end_time'', lit ''2''), (lit ''dialog'', lit ''a'')],
            [(lit ''start_time'', lit ''3''), (lit ''end_time'', lit ''4''), (lit ''dialog'', lit ''b'')]]"
  (is "startswith ?B ?M \<and> _ \<and> _ \<and> parse_lines [] (?pre @ ?B # ?post) = Inr ?R")
proof -
  have h1: "startswith ?B ?M" by code_simp
  have h2: "\<not> matched ?B" by code_simp
  have r: "parse_lines [] (?pre @ ?post) = Inr ?R" by code_simp
  from malformed_line_skipped [OF h1 h2, of "[]" ?pre ?post] r
  have "process_line [] ?B = Inr []" and "parse_lines [] (?pre @ ?B # ?post) = Inr ?R"
    by auto
  with h1 h2 show ?thesis by blast
qed

text \<open>
  C5. The output of the extractor is the list of the records of the lines the pattern
  matches, one per matched line and in the order of the lines in the file; this is also
  what \<open>parse_ass_file\<close> returns for every file it can read.
\<close>

theorem output_follows_matched_lines:
  "parse_lines [] (file_lines content) = Inr (map record_of (filter matched (file_lines content)))
   \<and> parse_ass_file w p =
       (case read_text w p of
          Inl e \<Rightarrow> Inl e
        | Inr text \<Rightarrow> Inr (map record_of (filter matched (file_lines text))))"
proof -
  have "parse_lines [] (file_lines c) = Inr (map record_of (filter matched (file_lines c)))" for c
    using parse_file_lines [of "file_lines c" "[]"] file_lines_file_line by simp
  then show ?thesis
    by (simp add: parse_ass_file_def split: sum.splits)
qed

text \<open>
  C6. For every record a line of the file appends, the line is the prefix, nine comma-free
  fields each followed by its comma, then whitespace, the \<open>dialog\<close> and whitespace; the
  \<open>dialog\<close> neither starts nor ends with whitespace, and \<open>start_time\<close> and
  \<open>end_time\<close> are fields 1 and 2 as they stand in the line.
\<close>

theorem emitted_record_is_verbatim:
  assumes "file_line line" and "process_line ds line = Inr (ds @ [d])"
  shows "\<exists>flds ws1 dg ws2.
           length flds = 9 \<and> (\<forall>f\<in>set flds. comma \<notin> set f)
         \<and> line = lit ''Dialogue: '' @ concat (map (\<lambda>f. f @ [comma]) flds) @ ws1 @ dg @ ws2
         \<and> (\<forall>c\<in>set ws1. is_space c) \<and> (\<forall>c\<in>set ws2. is_space c)
         \<and> (dg = [] \<or> (\<not> is_space (hd dg) \<and> \<not> is_space (last dg)))
         \<and> d = [(lit ''start_time'', flds ! 1), (lit ''end_time'', flds ! 2), (lit ''dialog'', dg)]"
proof -
  from assms have m: "matched line" and d: "d = record_of line"
    by (auto simp: process_file_line split: if_splits)
  from m have len: "length (fields line) = 10"
    and pre: "take 10 line = lit ''Dialogue: ''"
    by (simp_all add: matched_iff startswith_def)
  note dec = fields_decomp [OF len]
  let ?flds = "take 9 (fields line)"
  let ?dg = "strip (fields line ! 9)"
  obtain ws1 ws2 where t: "fields line ! 9 = ws1 @ ?dg @ ws2"
    and w: "\<forall>c\<in>set ws1. is_space c" "\<forall>c\<in>set ws2. is_space c"
    using strip_decomp by blast
  have "line = lit ''Dialogue: '' @ concat (map (\<lambda>f. f @ [comma]) ?flds) @ fields line ! 9"
    using dec(1) pre append_take_drop_id [of 10 line] by simp
  with t have line: "line = lit ''Dialogue: '' @ concat (map (\<lambda>f. f @ [comma]) ?flds) @ ws1 @ ?dg @ ws2"
    by simp
  have l9: "length ?flds = 9" using len by simp
  have e: "?dg = [] \<or> (\<not> is_space (hd ?dg) \<and> \<not> is_space (last ?dg))"
    using strip_ends by blast
  have "d = [(lit ''start_time'', ?flds ! 1), (lit ''end_time'', ?flds ! 2), (lit ''dialog'', ?dg)]"
    using d by (simp add: record_of_def mk_dialogue_def)
  with l9 dec(2) line w e show ?thesis by blast
qed

theorem emitted_record_is_verbatim_witness:
  "file_line (lit ''Dialogue: 0,1,2,S,,0,0,0,, {'' @ backslash # lit ''i1}a  b '' @ [nl])
   \<and> process_line [] (lit ''Dialogue: 0,1,2,S,,0,0,0,, {'' @ backslash # lit ''i1}a  b '' @ [nl]) =
       Inr ([] @ [[(lit ''start_time'', lit ''1''), (lit ''end_time'', lit ''2''),
                   (lit ''dialog'', lit ''{'' @ backslash # lit ''i1}a  b'')]])
   \<and> (\<exists>flds ws1 dg ws2.
           length flds = 9 \<and> (\<forall>f\<in>set flds. comma \<notin> set f)
         \<and> lit ''Dialogue: 0,1,2,S,,0,0,0,, {'' @ backslash # lit ''i1}a  b '' @ [nl] =
             lit ''Dialogue: '' @ concat (map (\<lambda>f. f @ [comma]) flds) @ ws1 @ dg @ ws2
         \<and> (\<forall>c\<in>set ws1. is_space c) \<and> (\<forall>c\<in>set ws2. is_space c)
         \<and> (dg = [] \<or> (\<not> is_space (hd dg) \<and> \<not> is_space (last dg)))
         \<and> [(lit ''start_time'', lit ''1''), (lit ''end_time'', lit ''2''),
             (lit ''dialog'', lit ''{'' @ backslash # lit ''i1}a  b'')] =
             [(lit ''start_time'', flds ! 1), (lit ''end_time'', flds ! 2), (lit ''dialog'', dg)])"
  (is "file_line ?L \<and> process_line [] ?L = Inr ([] @ [?D]) \<and> ?E")
proof -
  have h1: "file_line ?L" by code_simp
  have h2: "process_line [] ?L = Inr ([] @ [?D])" by code_simp
  from emitted_record_is_verbatim [OF h1 h2] have ?E .
  with h1 h2 show ?thesis by blast
qed

text \<open>
  C7. A line that does not start with \<open>Dialogue:\<close> (the comparison is exact: a leading
  space or another case is a different start) appends no record and raises nothing, and
  the file is processed as if the line were not there.
\<close>

theorem non_dialogue_line_ignored:
  assumes "\<not> startswith line (lit ''Dialogue:'')"
  shows "process_line ds line = Inr ds
       \<and> parse_lines ds (pre @ line # post) = parse_lines ds (pre @ post)"
proof -
  have "\<not> matched line"
    using assms startswith_marker by (auto simp: matched_iff)
  then show ?thesis
    by (simp add: process_line_eq parse_lines_eq)
qed

theorem non_dialogue_line_ignored_witness:
  "\<not> startswith (lit '' Dialogue: 0,0:00:01.00,0:00:02.00,Default,,0,0,0,,Hi there'') (lit ''Dialogue:'')
   \<and> process_line [] (lit '' Dialogue: 0,0:00:01.00,0:00:02.00,Default,,0,0,0,,Hi there'') = Inr []
   \<and> \<not> startswith (lit ''dialogue: 0,0:00:01.00,0:00:02.00,Default,,0,0,0,,Hi there'') (lit ''Dialogue:'')
   \<and> process_line [] (lit ''dialogue: 0,0:00:01.00,0:00:02.00,Default,,0,0,0,,Hi there'') = Inr []"
  (is "\<not> startswith ?A ?M \<and> _ \<and> \<not> startswith ?B ?M \<and> _")
proof -
  have a: "\<not> startswith ?A ?M" by code_simp
  have b: "\<not> startswith ?B ?M" by code_simp
  from non_dialogue_line_ignored [OF a, of "[]" "[]" "[]"]
       non_dialogue_line_ignored [OF b, of "[]" "[]" "[]"] a b
  show ?thesis by blast
qed

text \<open>
  C10. A line made of \<open>Dialogue: \<close>, nine comma-free fields each followed by its comma,
  and nothing after the ninth comma (but the end of the line) appends a record whose
  \<open>dialog\<close> is the empty string.
\<close>

theorem empty_text_field_emits_record:
  assumes "length flds = 9" and "\<forall>f\<in>set flds. comma \<notin> set f" and "e = [] \<or> e = [nl]"
  shows "process_line ds (lit ''Dialogue: '' @ concat (map (\<lambda>f. f @ [comma]) flds) @ e) =
           Inr (ds @ [[(lit ''start_time'', flds ! 1), (lit ''end_time'', flds ! 2),
                       (lit ''dialog'', [])]])"
proof -
  let ?line = "lit ''Dialogue: '' @ concat (map (\<lambda>f. f @ [comma]) flds) @ e"
  have f: "fields ?line = flds @ [e]"
    using split_fields_concat [OF assms(1,2)] by (simp add: fields_def)
  have m: "matched ?line"
    using assms(1) by (simp add: matched_iff f startswith_prefix)
  have "strip (takeWhile (\<lambda>c. c \<noteq> nl) e) = []"
    using assms(3) by (auto simp: strip_def lstrip_def rstrip_def)
  with m f assms(1) show ?thesis
    by (simp add: process_line_eq mk_dialogue_def nth_append)
qed

theorem empty_text_field_emits_record_witness:
  "length [lit ''0'', lit ''1'', lit ''2'', lit ''S'', [], lit ''0'', lit ''0'', lit ''0'', []] = 9
   \<and> comma \<notin> set (concat [lit ''0'', lit ''1'', lit ''2'', lit ''S'', [], lit ''0'', lit ''0'', lit ''0'', []])
   \<and> process_line [] (lit ''Dialogue: 0,1,2,S,,0,0,0,,'' @ [nl]) =
       Inr [[(lit ''start_time'', lit ''1''), (lit ''end_time'', lit ''2''), (lit ''dialog'', [])]]"
  (is "length ?F = 9 \<and> ?H2 \<and> ?C")
proof -
  have h1: "length ?F = 9" by simp
  have h2: "\<forall>f\<in>set ?F. comma \<notin> set f" by code_simp
  have h2': ?H2 by code_simp
  have h3: "[nl] = [] \<or> [nl] = [nl]" by simp
  have l: "lit ''Dialogue: '' @ concat (map (\<lambda>f. f @ [comma]) ?F) @ [nl]
      = lit ''Dialogue: 0,1,2,S,,0,0,0,,'' @ [nl]" by code_simp
  note c = empty_text_field_emits_record [OF h1 h2 h3, of "[]", unfolded l]
  from c have ?C by simp
  with h1 h2' show ?thesis by blast
qed

section \<open>The claims about the serialiser and the command line\<close>




theorem surrogate_value_counterexample:
  "snd (write_json (records [(lit ''1'', lit ''2'', [97, 55296])]) (lit ''o.json'') example_world) =
     Some (UnicodeEncodeError [34, 97, 55296, 34] 2 3)
   \<and> fs (fst (write_json (records [(lit ''1'', lit ''2'', [97, 55296])]) (lit ''o.json'') example_world))
        (lit ''o.json'') =
     Some (File (Inr (
        lit ''['' @ [nl] @
        lit ''  {'' @ [nl] @
        lit ''    '' @ [dquote] @ lit ''start_time'' @ [dquote] @ lit '': '' @ [dquote] @ lit ''1'' @ [dquote] @ lit '','' @ [nl] @
        lit ''    '' @ [dquote] @ lit ''end_time'' @ [dquote] @ lit '': '' @ [dquote] @ lit ''2'' @ [dquote] @ lit '','' @ [nl] @
        lit ''    '' @ [dquote] @ lit ''dialog'' @ [dquote] @ lit '': '')))
   \<and> json_loads (
        lit ''['' @ [nl] @
        lit ''  {'' @ [nl] @
        lit ''    '' @ [dquote] @ lit ''start_time'' @ [dquote] @ lit '': '' @ [dquote] @ lit ''1'' @ [dquote] @ lit '','' @ [nl] @
        lit ''    '' @ [dquote] @ lit ''end_time'' @ [dquote] @ lit '': '' @ [dquote] @ lit ''2'' @ [dquote] @ lit '','' @ [nl] @
        lit ''    '' @ [dquote] @ lit ''dialog'' @ [dquote] @ lit '': '') = None"
  (is "?A \<and> ?B \<and> ?C")
proof -
  have a: ?A
    by (simp add: write_json_def open_write_def example_world_def records_def to_json_def
          utf8_encode_error_def is_surrogate_def py_encode_basestring_def esc_char_def lit_def
          indents nl_def dquote_def backslash_def)
  have b: ?B
    by (simp add: write_json_def open_write_def example_world_def records_def to_json_def
          utf8_encode_error_def is_surrogate_def py_encode_basestring_def esc_char_def lit_def
          indents nl_def dquote_def backslash_def)
  have c: ?C by code_simp
  from a b c show ?thesis by blast
qed



theorem over_long_name_counterexample:
  "fs name_max_world (replicate 256 97 @ lit ''.ass'') = None
   \<and> main (replicate 256 97 @ lit ''.ass'') None name_max_world =
       (name_max_world,
        Some (OSError (lit ''[Errno 36] File name too long: '' @ [39]
                       @ (replicate 256 97 @ lit ''.ass'') @ [39])))"
proof -
  let ?s = "replicate 256 97 @ lit ''.ass''"
  have s: "slash \<notin> set ?s" "?s \<noteq> []" "?s \<noteq> [dot]"
    by (simp_all add: slash_def lit_def)
  have p: "Path ?s = \<lparr>path_root = [], path_parts = [?s]\<rparr>"
    using s by (rule Path_plain)
  have sp: "str_path (Path ?s) = ?s"
    unfolding p str_path_def using s(2) by simp
  have "split_sep slash [] ?s = [?s]"
    using split_sep_plain [OF s(1), of "[]"] by simp
  then have "stat_error name_max_world ?s =
      Some (OSError (lit ''[Errno 36] File name too long: '' @ [39] @ ?s @ [39]))"
    by (simp add: name_max_world_def lit_def)
  then have "main ?s None name_max_world =
       (name_max_world,
        Some (OSError (lit ''[Errno 36] File name too long: '' @ [39] @ ?s @ [39])))"
    by (simp add: main_def sp path_exists_def)
  moreover have "fs name_max_world ?s = None"
    by (simp add: name_max_world_def)
  ultimately show ?thesis by blast
qed

end
